theory Spec2Isabelle
  imports Main "HOL-Library.Multiset"
begin

section \<open>Data model of ParkingLot.py\<close>

text \<open>
  A \<open>Vehicle\<close> is never mutated after construction, so it is a value. A \<open>ParkingSpot\<close> is a
  mutable object that floors refer to: the spots live in a heap (a total map from addresses
  to spot records) and a grid cell holds either \<open>None\<close> (no spot registered there) or the
  address of a spot, so that one spot object registered in several cells is one heap entry.
  Floors are not mutated by the operations modelled here (only by the setup call
  \<open>add_spot\<close>), so a floor is a value holding its number and its grid of cells.
  Console output (\<open>print\<close>) is not modelled.
\<close>

record Vehicle =
  number :: string
  vtype :: string

record ParkingSpot =
  spot_type :: string
  row :: int
  col :: int
  vehicle :: "Vehicle option"

type_synonym addr = nat

type_synonym heap = "addr \<Rightarrow> ParkingSpot"

record ParkingFloor =
  floor_num :: int
  spots :: "addr option list list"

datatype ParkingStrategy = FirstAvailableStrategy | LowestFloorStrategy

record ParkingLot =
  name :: string
  floors :: "ParkingFloor list"
  strategy :: ParkingStrategy

section \<open>ParkingSpot\<close>

definition is_free :: "ParkingSpot \<Rightarrow> bool" where
  "is_free s = (vehicle s = None)"

text \<open>\<open>park\<close> returns the boolean of the source together with the spot after the call.\<close>

definition park :: "ParkingSpot \<Rightarrow> Vehicle \<Rightarrow> bool \<times> ParkingSpot" where
  "park s v =
     (if is_free s \<and> spot_type s = vtype v
      then (True, s\<lparr>vehicle := Some v\<rparr>)
      else (False, s))"

definition unpark :: "ParkingSpot \<Rightarrow> Vehicle option \<times> ParkingSpot" where
  "unpark s = (vehicle s, s\<lparr>vehicle := None\<rparr>)"

section \<open>ParkingFloor\<close>

text \<open>
  The generator expression of \<open>get_free_spots\<close>: \<open>spot and ...\<close> is false on an empty cell
  and goes on to the two tests on a populated one.
\<close>

definition free_cell :: "heap \<Rightarrow> string \<Rightarrow> addr option \<Rightarrow> bool" where
  "free_cell h t c =
     (case c of None \<Rightarrow> False | Some a \<Rightarrow> is_free (h a) \<and> spot_type (h a) = t)"

definition get_free_spots :: "ParkingFloor \<Rightarrow> string \<Rightarrow> heap \<Rightarrow> int" where
  "get_free_spots f t h = sum_list [1. r \<leftarrow> spots f, c \<leftarrow> r, free_cell h t c]"

section \<open>Strategies\<close>

text \<open>
  The triple loop of \<open>find_spot\<close>, innermost first. Each function returns the spot the loop
  returned (\<open>None\<close> when the loop ran to its end) and the heap it left. The call
  \<open>spot.park(vehicle)\<close> is written back to the heap whatever it returns.
\<close>

fun find_spot_row :: "addr option list \<Rightarrow> Vehicle \<Rightarrow> heap \<Rightarrow> addr option \<times> heap" where
  "find_spot_row [] v h = (None, h)"
| "find_spot_row (None # cs) v h = find_spot_row cs v h"
| "find_spot_row (Some a # cs) v h =
     (case park (h a) v of
        (ok, s) \<Rightarrow> if ok then (Some a, h(a := s)) else find_spot_row cs v (h(a := s)))"

fun find_spot_rows :: "addr option list list \<Rightarrow> Vehicle \<Rightarrow> heap \<Rightarrow> addr option \<times> heap" where
  "find_spot_rows [] v h = (None, h)"
| "find_spot_rows (r # rs) v h =
     (case find_spot_row r v h of
        (Some a, h') \<Rightarrow> (Some a, h')
      | (None, h') \<Rightarrow> find_spot_rows rs v h')"

fun find_spot_floors :: "ParkingFloor list \<Rightarrow> Vehicle \<Rightarrow> heap \<Rightarrow> addr option \<times> heap" where
  "find_spot_floors [] v h = (None, h)"
| "find_spot_floors (f # fs) v h =
     (case find_spot_rows (spots f) v h of
        (Some a, h') \<Rightarrow> (Some a, h')
      | (None, h') \<Rightarrow> find_spot_floors fs v h')"

definition FirstAvailableStrategy_find_spot ::
  "ParkingFloor list \<Rightarrow> Vehicle \<Rightarrow> heap \<Rightarrow> addr option \<times> heap" where
  "FirstAvailableStrategy_find_spot fs v h = find_spot_floors fs v h"

text \<open>
  Python's \<open>sorted(floors, key=...)\<close> builds a new list of the same floor objects and is
  stable; \<open>sort_key\<close> is the stable insertion sort of the list library.
\<close>

definition LowestFloorStrategy_find_spot ::
  "ParkingFloor list \<Rightarrow> Vehicle \<Rightarrow> heap \<Rightarrow> addr option \<times> heap" where
  "LowestFloorStrategy_find_spot fs v h = find_spot_floors (sort_key floor_num fs) v h"

fun find_spot ::
  "ParkingStrategy \<Rightarrow> ParkingFloor list \<Rightarrow> Vehicle \<Rightarrow> heap \<Rightarrow> addr option \<times> heap" where
  "find_spot FirstAvailableStrategy fs v h = FirstAvailableStrategy_find_spot fs v h"
| "find_spot LowestFloorStrategy fs v h = LowestFloorStrategy_find_spot fs v h"

section \<open>ParkingLot\<close>

definition park_vehicle :: "ParkingLot \<Rightarrow> Vehicle \<Rightarrow> heap \<Rightarrow> addr option \<times> heap" where
  "park_vehicle lot v h = find_spot (strategy lot) (floors lot) v h"

text \<open>
  The test \<open>spot and spot.vehicle and spot.vehicle.number == number\<close> of \<open>unpark_vehicle\<close>
  and \<open>search_vehicle\<close>, on the spot a populated cell refers to.
\<close>

definition holds_number :: "ParkingSpot \<Rightarrow> string \<Rightarrow> bool" where
  "holds_number s n = (case vehicle s of None \<Rightarrow> False | Some w \<Rightarrow> number w = n)"

text \<open>
  The triple loop of \<open>unpark_vehicle\<close>. On a hit the loop returns what \<open>spot.unpark()\<close>
  returned, which is the vehicle the test has just seen, so a result \<open>None\<close> of an inner
  loop means that it ran to its end.
\<close>

fun unpark_row :: "addr option list \<Rightarrow> string \<Rightarrow> heap \<Rightarrow> Vehicle option \<times> heap" where
  "unpark_row [] n h = (None, h)"
| "unpark_row (None # cs) n h = unpark_row cs n h"
| "unpark_row (Some a # cs) n h =
     (if holds_number (h a) n
      then (case unpark (h a) of (w, s) \<Rightarrow> (w, h(a := s)))
      else unpark_row cs n h)"

fun unpark_rows :: "addr option list list \<Rightarrow> string \<Rightarrow> heap \<Rightarrow> Vehicle option \<times> heap" where
  "unpark_rows [] n h = (None, h)"
| "unpark_rows (r # rs) n h =
     (case unpark_row r n h of
        (Some w, h') \<Rightarrow> (Some w, h')
      | (None, h') \<Rightarrow> unpark_rows rs n h')"

fun unpark_floors :: "ParkingFloor list \<Rightarrow> string \<Rightarrow> heap \<Rightarrow> Vehicle option \<times> heap" where
  "unpark_floors [] n h = (None, h)"
| "unpark_floors (f # fs) n h =
     (case unpark_rows (spots f) n h of
        (Some w, h') \<Rightarrow> (Some w, h')
      | (None, h') \<Rightarrow> unpark_floors fs n h')"

definition unpark_vehicle :: "ParkingLot \<Rightarrow> string \<Rightarrow> heap \<Rightarrow> Vehicle option \<times> heap" where
  "unpark_vehicle lot n h = unpark_floors (floors lot) n h"

text \<open>Decimal rendering of an integer, as an f-string renders it.\<close>

fun str_nat :: "nat \<Rightarrow> string" where
  "str_nat n =
     (if n < 10 then [char_of (48 + n)]
      else str_nat (n div 10) @ [char_of (48 + n mod 10)])"

definition str_int :: "int \<Rightarrow> string" where
  "str_int i = (if i < 0 then CHR ''-'' # str_nat (nat (- i)) else str_nat (nat i))"

fun search_row :: "int \<Rightarrow> addr option list \<Rightarrow> string \<Rightarrow> heap \<Rightarrow> string option" where
  "search_row fl [] n h = None"
| "search_row fl (None # cs) n h = search_row fl cs n h"
| "search_row fl (Some a # cs) n h =
     (if holds_number (h a) n
      then Some (''Vehicle '' @ n @ '' at Floor '' @ str_int fl @ '' Spot(''
                 @ str_int (row (h a)) @ '','' @ str_int (col (h a)) @ '')'')
      else search_row fl cs n h)"

fun search_rows :: "int \<Rightarrow> addr option list list \<Rightarrow> string \<Rightarrow> heap \<Rightarrow> string option" where
  "search_rows fl [] n h = None"
| "search_rows fl (r # rs) n h =
     (case search_row fl r n h of Some m \<Rightarrow> Some m | None \<Rightarrow> search_rows fl rs n h)"

fun search_floors :: "ParkingFloor list \<Rightarrow> string \<Rightarrow> heap \<Rightarrow> string option" where
  "search_floors [] n h = None"
| "search_floors (f # fs) n h =
     (case search_rows (floor_num f) (spots f) n h of
        Some m \<Rightarrow> Some m
      | None \<Rightarrow> search_floors fs n h)"

definition search_vehicle :: "ParkingLot \<Rightarrow> string \<Rightarrow> heap \<Rightarrow> string option \<times> heap" where
  "search_vehicle lot n h = (search_floors (floors lot) n h, h)"

fun count_free_floors :: "ParkingFloor list \<Rightarrow> int \<Rightarrow> string \<Rightarrow> heap \<Rightarrow> int" where
  "count_free_floors [] k t h = 0"
| "count_free_floors (f # fs) k t h =
     (if floor_num f = k then get_free_spots f t h else count_free_floors fs k t h)"

definition count_free_spots :: "ParkingLot \<Rightarrow> int \<Rightarrow> string \<Rightarrow> heap \<Rightarrow> int \<times> heap" where
  "count_free_spots lot k t h = (count_free_floors (floors lot) k t h, h)"

section \<open>Sequences of operations\<close>

datatype operation =
  Park Vehicle
| Unpark string
| Search string
| CountFree int string

fun apply_op :: "ParkingLot \<Rightarrow> operation \<Rightarrow> heap \<Rightarrow> heap" where
  "apply_op lot (Park v) h = snd (park_vehicle lot v h)"
| "apply_op lot (Unpark n) h = snd (unpark_vehicle lot n h)"
| "apply_op lot (Search n) h = snd (search_vehicle lot n h)"
| "apply_op lot (CountFree k t) h = snd (count_free_spots lot k t h)"

fun run_ops :: "ParkingLot \<Rightarrow> operation list \<Rightarrow> heap \<Rightarrow> heap" where
  "run_ops lot [] h = h"
| "run_ops lot (op # ops) h = run_ops lot ops (apply_op lot op h)"

section \<open>Scan order\<close>

text \<open>
  The populated cells of a lot in the order the loops visit them: floors in list order,
  rows in order, cells of a row in order.
\<close>

definition row_slots :: "addr option list \<Rightarrow> addr list" where
  "row_slots r = List.map_filter (\<lambda>c. c) r"

definition floor_slots :: "ParkingFloor \<Rightarrow> addr list" where
  "floor_slots f = concat (map row_slots (spots f))"

definition scan_order :: "ParkingFloor list \<Rightarrow> addr list" where
  "scan_order fs = concat (map floor_slots fs)"

definition compatible_free :: "heap \<Rightarrow> Vehicle \<Rightarrow> addr \<Rightarrow> bool" where
  "compatible_free h v a = (is_free (h a) \<and> spot_type (h a) = vtype v)"

definition occupy :: "heap \<Rightarrow> addr \<Rightarrow> Vehicle \<Rightarrow> heap" where
  "occupy h a v = h(a := (h a)\<lparr>vehicle := Some v\<rparr>)"

definition vacate :: "heap \<Rightarrow> addr \<Rightarrow> heap" where
  "vacate h a = h(a := (h a)\<lparr>vehicle := None\<rparr>)"

section \<open>Specification-side notions\<close>

text \<open>
  The grid positions of a floor that hold a spot which is free and of type \<open>t\<close>. An empty
  cell holds no spot, so it is in no such set.
\<close>

definition free_positions :: "ParkingFloor \<Rightarrow> string \<Rightarrow> heap \<Rightarrow> (nat \<times> nat) set" where
  "free_positions f t h =
     {(i, j). i < length (spots f) \<and> j < length (spots f ! i) \<and>
              (\<exists>a. spots f ! i ! j = Some a \<and> is_free (h a) \<and> spot_type (h a) = t)}"

text \<open>
  \<open>gs\<close> is \<open>fs\<close> reordered ascending by \<open>floor_num\<close>, floors of equal number keeping the
  order they have in \<open>fs\<close>. This follows the words of the specification and is compared
  with the \<open>sorted\<close> call of the source.
\<close>

definition stable_ascending :: "ParkingFloor list \<Rightarrow> ParkingFloor list \<Rightarrow> bool" where
  "stable_ascending fs gs =
     (mset gs = mset fs \<and> sorted (map floor_num gs) \<and>
      (\<forall>k \<in> set (map floor_num fs).
         filter (\<lambda>f. floor_num f = k) gs = filter (\<lambda>f. floor_num f = k) fs))"

text \<open>The vehicle occupies some spot of the lot.\<close>

definition parked :: "ParkingLot \<Rightarrow> heap \<Rightarrow> Vehicle \<Rightarrow> bool" where
  "parked lot h v = (\<exists>a \<in> set (scan_order (floors lot)). vehicle (h a) = Some v)"

text \<open>Every spot of the lot is free.\<close>

definition all_free :: "ParkingLot \<Rightarrow> heap \<Rightarrow> bool" where
  "all_free lot h = (\<forall>a \<in> set (scan_order (floors lot)). is_free (h a))"

text \<open>No two distinct spots of the lot hold the same vehicle.\<close>

definition single_binding :: "ParkingLot \<Rightarrow> heap \<Rightarrow> bool" where
  "single_binding lot h =
     (\<forall>a \<in> set (scan_order (floors lot)). \<forall>b \<in> set (scan_order (floors lot)).
        a \<noteq> b \<longrightarrow> vehicle (h a) = None \<or> vehicle (h a) \<noteq> vehicle (h b))"

text \<open>
  The caller's discipline along a sequence of operations: \<open>park_vehicle\<close> is called only
  with a vehicle that occupies no spot at that moment.
\<close>

fun no_repark :: "ParkingLot \<Rightarrow> operation list \<Rightarrow> heap \<Rightarrow> bool" where
  "no_repark lot [] h = True"
| "no_repark lot (Park v # ops) h =
     (\<not> parked lot h v \<and> no_repark lot ops (apply_op lot (Park v) h))"
| "no_repark lot (op # ops) h = no_repark lot ops (apply_op lot op h)"

section \<open>Concrete lots\<close>

text \<open>The lot of the demo at the end of the source: one floor, a 2 by 2 grid.\<close>

definition demo_floor :: ParkingFloor where
  "demo_floor = \<lparr>floor_num = 0, spots = [[Some 0, Some 1], [Some 2, Some 3]]\<rparr>"

definition demo_heap :: heap where
  "demo_heap =
     (\<lambda>_. \<lparr>spot_type = ''CAR'', row = 1, col = 1, vehicle = None\<rparr>)
       (0 := \<lparr>spot_type = ''CAR'', row = 0, col = 0, vehicle = None\<rparr>,
        1 := \<lparr>spot_type = ''BIKE'', row = 0, col = 1, vehicle = None\<rparr>,
        2 := \<lparr>spot_type = ''TRUCK'', row = 1, col = 0, vehicle = None\<rparr>)"

definition demo_lot :: ParkingLot where
  "demo_lot = \<lparr>name = ''MyLot'', floors = [demo_floor], strategy = FirstAvailableStrategy\<rparr>"

definition v1 :: Vehicle where
  "v1 = \<lparr>number = ''KA01AB1234'', vtype = ''CAR''\<rparr>"

definition v2 :: Vehicle where
  "v2 = \<lparr>number = ''KA02XY5678'', vtype = ''BIKE''\<rparr>"

definition v4 :: Vehicle where
  "v4 = \<lparr>number = ''KA04CD4321'', vtype = ''CAR''\<rparr>"

text \<open>The demo lot with both CAR spots taken.\<close>

definition full_heap :: heap where
  "full_heap = occupy (occupy demo_heap 0 v1) 3 v4"

text \<open>Three one-cell floors appended as 2, 1, 1; every spot is a free CAR spot.\<close>

definition upper_floor :: ParkingFloor where
  "upper_floor = \<lparr>floor_num = 2, spots = [[Some 0]]\<rparr>"

definition lower_floor_a :: ParkingFloor where
  "lower_floor_a = \<lparr>floor_num = 1, spots = [[None, Some 1]]\<rparr>"

definition lower_floor_b :: ParkingFloor where
  "lower_floor_b = \<lparr>floor_num = 1, spots = [[Some 2]]\<rparr>"

definition car_heap :: heap where
  "car_heap = (\<lambda>_. \<lparr>spot_type = ''CAR'', row = 0, col = 0, vehicle = None\<rparr>)"

definition tower_lot :: ParkingLot where
  "tower_lot =
     \<lparr>name = ''Tower'', floors = [upper_floor, lower_floor_a, lower_floor_b],
      strategy = LowestFloorStrategy\<rparr>"

section \<open>The loops as searches along the scan order\<close>

lemma find_app:
  "List.find P (xs @ ys) = (case List.find P xs of None \<Rightarrow> List.find P ys | Some x \<Rightarrow> Some x)"
  by (induction xs) simp_all

lemma find_spot_row_find:
  "find_spot_row r v h =
     (case List.find (compatible_free h v) (row_slots r) of
        None \<Rightarrow> (None, h)
      | Some a \<Rightarrow> (Some a, occupy h a v))"
proof (induction r v h rule: find_spot_row.induct)
  case (1 v h)
  show ?case by (simp add: row_slots_def)
next
  case (2 cs v h)
  then show ?case by (simp add: row_slots_def)
next
  case (3 a cs v h)
  show ?case
  proof (cases "compatible_free h v a")
    case True
    then show ?thesis
      by (simp add: row_slots_def park_def compatible_free_def occupy_def)
  next
    case False
    then have "park (h a) v = (False, h a)"
      by (auto simp: park_def compatible_free_def)
    with 3 False show ?thesis
      by (simp add: row_slots_def split: option.split)
  qed
qed

lemma find_spot_rows_find:
  "find_spot_rows rs v h =
     (case List.find (compatible_free h v) (concat (map row_slots rs)) of
        None \<Rightarrow> (None, h)
      | Some a \<Rightarrow> (Some a, occupy h a v))"
proof (induction rs)
  case Nil
  show ?case by simp
next
  case (Cons r rs)
  show ?case
    by (cases "List.find (compatible_free h v) (row_slots r)")
       (simp_all add: find_spot_row_find find_app Cons)
qed

lemma find_spot_floors_find:
  "find_spot_floors fs v h =
     (case List.find (compatible_free h v) (scan_order fs) of
        None \<Rightarrow> (None, h)
      | Some a \<Rightarrow> (Some a, occupy h a v))"
proof (induction fs)
  case Nil
  show ?case by (simp add: scan_order_def)
next
  case (Cons f fs)
  show ?case
    by (cases "List.find (compatible_free h v) (floor_slots f)")
       (simp_all add: find_spot_rows_find find_app Cons scan_order_def floor_slots_def)
qed

lemma unpark_row_find:
  "unpark_row r n h =
     (case List.find (\<lambda>a. holds_number (h a) n) (row_slots r) of
        None \<Rightarrow> (None, h)
      | Some a \<Rightarrow> (vehicle (h a), vacate h a))"
  by (induction r n h rule: unpark_row.induct)
     (simp_all add: row_slots_def unpark_def vacate_def)

lemma find_holds_Some:
  "List.find (\<lambda>a. holds_number (h a) n) xs = Some a \<Longrightarrow> \<exists>w. vehicle (h a) = Some w \<and> number w = n"
  by (auto simp: find_Some_iff holds_number_def split: option.splits)

lemma unpark_rows_find:
  "unpark_rows rs n h =
     (case List.find (\<lambda>a. holds_number (h a) n) (concat (map row_slots rs)) of
        None \<Rightarrow> (None, h)
      | Some a \<Rightarrow> (vehicle (h a), vacate h a))"
proof (induction rs)
  case Nil
  show ?case by simp
next
  case (Cons r rs)
  show ?case
  proof (cases "List.find (\<lambda>a. holds_number (h a) n) (row_slots r)")
    case None
    then show ?thesis by (simp add: unpark_row_find find_app Cons)
  next
    case (Some a)
    from find_holds_Some[OF Some] obtain w where "vehicle (h a) = Some w" by blast
    with Some show ?thesis by (simp add: unpark_row_find find_app)
  qed
qed

lemma unpark_floors_find:
  "unpark_floors fs n h =
     (case List.find (\<lambda>a. holds_number (h a) n) (scan_order fs) of
        None \<Rightarrow> (None, h)
      | Some a \<Rightarrow> (vehicle (h a), vacate h a))"
proof (induction fs)
  case Nil
  show ?case by (simp add: scan_order_def)
next
  case (Cons f fs)
  show ?case
  proof (cases "List.find (\<lambda>a. holds_number (h a) n) (floor_slots f)")
    case None
    then show ?thesis
      by (simp add: unpark_rows_find find_app Cons scan_order_def floor_slots_def)
  next
    case (Some a)
    from find_holds_Some[OF Some] obtain w where "vehicle (h a) = Some w" by blast
    with Some show ?thesis
      by (simp add: unpark_rows_find find_app scan_order_def floor_slots_def)
  qed
qed

lemma scan_order_sort_key: "set (scan_order (sort_key floor_num fs)) = set (scan_order fs)"
  by (simp add: scan_order_def)

lemma find_spot_find:
  "find_spot st fs v h =
     (case List.find (compatible_free h v)
             (scan_order (case st of FirstAvailableStrategy \<Rightarrow> fs
                                   | LowestFloorStrategy \<Rightarrow> sort_key floor_num fs)) of
        None \<Rightarrow> (None, h)
      | Some a \<Rightarrow> (Some a, occupy h a v))"
  by (cases st)
     (simp_all add: FirstAvailableStrategy_find_spot_def LowestFloorStrategy_find_spot_def
        find_spot_floors_find)

lemma find_spot_cases:
  "find_spot st fs v h = (None, h) \<and> (\<forall>a \<in> set (scan_order fs). \<not> compatible_free h v a)
   \<or> (\<exists>a \<in> set (scan_order fs). compatible_free h v a \<and> find_spot st fs v h = (Some a, occupy h a v))"
proof -
  let ?gs = "case st of FirstAvailableStrategy \<Rightarrow> fs | LowestFloorStrategy \<Rightarrow> sort_key floor_num fs"
  have eq: "set (scan_order ?gs) = set (scan_order fs)"
    by (cases st) (simp_all add: scan_order_sort_key)
  show ?thesis
  proof (cases "List.find (compatible_free h v) (scan_order ?gs)")
    case None
    then have "\<forall>a \<in> set (scan_order ?gs). \<not> compatible_free h v a"
      by (simp add: find_None_iff)
    with None eq show ?thesis by (simp add: find_spot_find)
  next
    case (Some a)
    then have "a \<in> set (scan_order ?gs) \<and> compatible_free h v a"
      by (auto simp: find_Some_iff)
    with Some eq show ?thesis by (auto simp: find_spot_find)
  qed
qed

section \<open>Claims about ParkingSpot\<close>

text \<open>
  \<open>park\<close> returns a boolean, so its two ways of failing are one report: on an occupied BIKE
  spot and on a free CAR spot, a BIKE vehicle gets the same answer \<open>False\<close>.
\<close>

theorem park_reports_one_failure_counterexample:
  "\<not> is_free (demo_heap 1\<lparr>vehicle := Some v2\<rparr>) \<and>
   spot_type (demo_heap 1\<lparr>vehicle := Some v2\<rparr>) = vtype v2 \<and>
   is_free (demo_heap 0) \<and> spot_type (demo_heap 0) \<noteq> vtype v2 \<and>
   fst (park (demo_heap 1\<lparr>vehicle := Some v2\<rparr>) v2) = fst (park (demo_heap 0) v2)"
  by (simp add: park_def is_free_def demo_heap_def v2_def)

text \<open>
  C2 (amended): for every spot and vehicle, \<open>park\<close> returns \<open>False\<close> and leaves the spot
  unchanged when the spot is not free or when the vehicle's type differs from \<open>spot_type\<close>
  (the same \<open>False\<close> in both cases); otherwise it sets the occupant to the vehicle and
  returns \<open>True\<close>. In particular \<open>park\<close> never succeeds when the types differ.
\<close>

theorem park_semantics:
  "(\<not> is_free s \<or> spot_type s \<noteq> vtype v \<longrightarrow> park s v = (False, s)) \<and>
   (is_free s \<and> spot_type s = vtype v \<longrightarrow> park s v = (True, s\<lparr>vehicle := Some v\<rparr>)) \<and>
   (spot_type s \<noteq> vtype v \<longrightarrow> \<not> fst (park s v))"
  by (auto simp: park_def)

theorem park_semantics_witness:
  "park (demo_heap 0) v2 = (False, demo_heap 0) \<and>
   park (demo_heap 1) v2 = (True, demo_heap 1\<lparr>vehicle := Some v2\<rparr>) \<and>
   park (demo_heap 1\<lparr>vehicle := Some v2\<rparr>) v2 = (False, demo_heap 1\<lparr>vehicle := Some v2\<rparr>)"
  using park_semantics [of "demo_heap 0" v2] park_semantics [of "demo_heap 1" v2]
    park_semantics [of "demo_heap 1\<lparr>vehicle := Some v2\<rparr>" v2]
  by (simp add: is_free_def demo_heap_def v2_def)

section \<open>Claims about the strategies and park_vehicle\<close>

text \<open>
  \<open>find_spot\<close> of either strategy changes a spot: on the all-free demo lot the spot at
  address 0 is free before the call and holds the vehicle after it.
\<close>

theorem find_spot_mutates_counterexample:
  "vehicle (demo_heap 0) = None \<and>
   vehicle (snd (FirstAvailableStrategy_find_spot [demo_floor] v1 demo_heap) 0) = Some v1 \<and>
   vehicle (snd (LowestFloorStrategy_find_spot [demo_floor] v1 demo_heap) 0) = Some v1"
  by (simp add: FirstAvailableStrategy_find_spot_def LowestFloorStrategy_find_spot_def
      demo_floor_def demo_heap_def v1_def park_def is_free_def)

text \<open>
  C3 (amended): for every list of floors and every vehicle, \<open>find_spot\<close> of either strategy
  either returns \<open>None\<close> and changes no spot, or returns a spot of the floors that was free and
  of the vehicle's type and has itself set that spot's occupant to the vehicle, changing no
  other spot; \<open>park_vehicle\<close> adds no mutation of its own, it returns what \<open>find_spot\<close>
  returns.
\<close>

theorem find_spot_occupies_selected:
  "park_vehicle lot v h = find_spot (strategy lot) (floors lot) v h \<and>
   (find_spot st fs v h = (None, h) \<or>
    (\<exists>a. a \<in> set (scan_order fs) \<and> compatible_free h v a \<and>
         find_spot st fs v h = (Some a, occupy h a v)))"
  using find_spot_cases [of st fs v h] by (auto simp: park_vehicle_def)

text \<open>
  C4: when every spot of the lot whose \<open>spot_type\<close> is the vehicle's type is occupied (or the
  lot has no such spot), \<open>park_vehicle\<close> returns \<open>None\<close> and the heap of spots is the one
  before the call.
\<close>

theorem park_vehicle_exhausted:
  assumes "\<forall>a \<in> set (scan_order (floors lot)). spot_type (h a) = vtype v \<longrightarrow> \<not> is_free (h a)"
  shows "park_vehicle lot v h = (None, h)"
  using assms find_spot_cases [of "strategy lot" "floors lot" v h]
  by (auto simp: park_vehicle_def compatible_free_def)

theorem park_vehicle_exhausted_witness:
  "park_vehicle demo_lot v1 full_heap = (None, full_heap) \<and>
   park_vehicle tower_lot v2 car_heap = (None, car_heap)"
proof -
  have a: "\<forall>a \<in> set (scan_order (floors demo_lot)).
             spot_type (full_heap a) = vtype v1 \<longrightarrow> \<not> is_free (full_heap a)"
    by (simp add: scan_order_def floor_slots_def row_slots_def demo_lot_def demo_floor_def
        full_heap_def occupy_def demo_heap_def v1_def is_free_def)
  have b: "\<forall>a \<in> set (scan_order (floors tower_lot)).
             spot_type (car_heap a) = vtype v2 \<longrightarrow> \<not> is_free (car_heap a)"
    by (simp add: car_heap_def v2_def)
  show ?thesis
    using park_vehicle_exhausted [OF a] park_vehicle_exhausted [OF b] by simp
qed

text \<open>
  C6: for every list of floors and every vehicle, \<open>FirstAvailableStrategy.find_spot\<close> returns
  the first spot of the scan order (floors in list order, rows in order, cells in order,
  empty cells skipped) that is free and whose \<open>spot_type\<close> is the vehicle's type, and \<open>None\<close>
  exactly when the scan order has no such spot; two heaps that agree on the spots of the
  floors give the same selection.
\<close>

theorem first_available_first_in_scan:
  "fst (FirstAvailableStrategy_find_spot fs v h) = List.find (compatible_free h v) (scan_order fs) \<and>
   (fst (FirstAvailableStrategy_find_spot fs v h) = None \<longleftrightarrow>
      (\<forall>a \<in> set (scan_order fs). \<not> (is_free (h a) \<and> spot_type (h a) = vtype v))) \<and>
   (\<forall>a. fst (FirstAvailableStrategy_find_spot fs v h) = Some a \<longleftrightarrow>
      (\<exists>i < length (scan_order fs). scan_order fs ! i = a \<and>
          is_free (h a) \<and> spot_type (h a) = vtype v \<and>
          (\<forall>j < i. \<not> (is_free (h (scan_order fs ! j)) \<and> spot_type (h (scan_order fs ! j)) = vtype v)))) \<and>
   ((\<forall>a \<in> set (scan_order fs). h' a = h a) \<longrightarrow>
      fst (FirstAvailableStrategy_find_spot fs v h') = fst (FirstAvailableStrategy_find_spot fs v h))"
proof -
  let ?r = "fst (FirstAvailableStrategy_find_spot fs v h)"
  have r: "?r = List.find (compatible_free h v) (scan_order fs)"
    by (simp add: FirstAvailableStrategy_find_spot_def find_spot_floors_find split: option.split)
  have n: "?r = None \<longleftrightarrow>
      (\<forall>a \<in> set (scan_order fs). \<not> (is_free (h a) \<and> spot_type (h a) = vtype v))"
    unfolding r by (auto simp: find_None_iff compatible_free_def)
  have s: "\<forall>a. ?r = Some a \<longleftrightarrow>
      (\<exists>i < length (scan_order fs). scan_order fs ! i = a \<and>
          is_free (h a) \<and> spot_type (h a) = vtype v \<and>
          (\<forall>j < i. \<not> (is_free (h (scan_order fs ! j)) \<and> spot_type (h (scan_order fs ! j)) = vtype v)))"
    unfolding r by (auto simp: find_Some_iff compatible_free_def)
  have d: "(\<forall>a \<in> set (scan_order fs). h' a = h a) \<longrightarrow>
      fst (FirstAvailableStrategy_find_spot fs v h') = ?r"
  proof
    assume "\<forall>a \<in> set (scan_order fs). h' a = h a"
    then have "List.find (compatible_free h' v) (scan_order fs)
                 = List.find (compatible_free h v) (scan_order fs)"
      by (intro find_cong) (simp_all add: compatible_free_def)
    then show "fst (FirstAvailableStrategy_find_spot fs v h') = ?r"
      unfolding r
      by (simp add: FirstAvailableStrategy_find_spot_def find_spot_floors_find split: option.split)
  qed
  from r n s d show ?thesis by blast
qed

theorem first_available_first_in_scan_witness:
  "fst (FirstAvailableStrategy_find_spot [demo_floor] v4 (occupy demo_heap 0 v1)) = Some 3 \<and>
   fst (FirstAvailableStrategy_find_spot [demo_floor] v4 full_heap) = None \<and>
   fst (FirstAvailableStrategy_find_spot [demo_floor] v4 ((occupy demo_heap 0 v1)(7 := car_heap 7)))
     = fst (FirstAvailableStrategy_find_spot [demo_floor] v4 (occupy demo_heap 0 v1))"
proof -
  have so: "scan_order [demo_floor] = [0, 1, 2, 3]"
    by (simp add: scan_order_def floor_slots_def row_slots_def demo_floor_def)
  have a: "List.find (compatible_free (occupy demo_heap 0 v1) v4) (scan_order [demo_floor]) = Some 3"
    unfolding so by (simp add: compatible_free_def occupy_def demo_heap_def is_free_def v4_def v1_def)
  have b: "\<forall>a \<in> set (scan_order [demo_floor]).
             \<not> (is_free (full_heap a) \<and> spot_type (full_heap a) = vtype v4)"
    unfolding so by (simp add: full_heap_def occupy_def demo_heap_def is_free_def v4_def)
  have c: "\<forall>a \<in> set (scan_order [demo_floor]).
             ((occupy demo_heap 0 v1)(7 := car_heap 7)) a = (occupy demo_heap 0 v1) a"
    unfolding so by simp
  have r1: "fst (FirstAvailableStrategy_find_spot [demo_floor] v4 (occupy demo_heap 0 v1)) = Some 3"
    using first_available_first_in_scan [where fs = "[demo_floor]" and v = v4
            and h = "occupy demo_heap 0 v1"] a
    by simp
  have r2: "fst (FirstAvailableStrategy_find_spot [demo_floor] v4 full_heap) = None"
    using first_available_first_in_scan [where fs = "[demo_floor]" and v = v4
            and h = full_heap] b
    by blast
  have r3: "fst (FirstAvailableStrategy_find_spot [demo_floor] v4 ((occupy demo_heap 0 v1)(7 := car_heap 7)))
           = fst (FirstAvailableStrategy_find_spot [demo_floor] v4 (occupy demo_heap 0 v1))"
    using first_available_first_in_scan [where fs = "[demo_floor]" and v = v4
            and h = "occupy demo_heap 0 v1" and h' = "(occupy demo_heap 0 v1)(7 := car_heap 7)"] c
    by blast
  from r1 r2 r3 show ?thesis by simp
qed

text \<open>
  C7: for every list of floors and every vehicle, \<open>LowestFloorStrategy.find_spot\<close> returns the
  spot, and leaves the heap, that \<open>FirstAvailableStrategy.find_spot\<close> does on the floors
  reordered ascending by \<open>floor_num\<close> with floors of equal number kept in insertion order.
\<close>

theorem lowest_floor_refines_first_available:
  assumes "stable_ascending fs gs"
  shows "LowestFloorStrategy_find_spot fs v h = FirstAvailableStrategy_find_spot gs v h"
proof -
  from assms have m: "mset gs = mset fs" and s: "sorted (map floor_num gs)"
    and st: "\<forall>k \<in> set (map floor_num fs).
               filter (\<lambda>f. floor_num f = k) gs = filter (\<lambda>f. floor_num f = k) fs"
    by (simp_all add: stable_ascending_def)
  from m have se: "set gs = set fs" by (rule mset_eq_setD)
  have "sort_key floor_num fs = gs"
  proof (rule properties_for_sort_key [OF m _ s])
    fix k assume "k \<in> set gs"
    with se have "floor_num k \<in> set (map floor_num fs)" by simp
    with st have "filter (\<lambda>f. floor_num f = floor_num k) gs
                    = filter (\<lambda>f. floor_num f = floor_num k) fs" by blast
    then show "filter (\<lambda>x. floor_num k = floor_num x) gs
                 = filter (\<lambda>x. floor_num k = floor_num x) fs"
      by (simp add: eq_commute [of "floor_num k"])
  qed
  then show ?thesis
    by (simp add: LowestFloorStrategy_find_spot_def FirstAvailableStrategy_find_spot_def)
qed

theorem lowest_floor_refines_first_available_witness:
  "stable_ascending [upper_floor, lower_floor_a, lower_floor_b]
                    [lower_floor_a, lower_floor_b, upper_floor] \<and>
   LowestFloorStrategy_find_spot [upper_floor, lower_floor_a, lower_floor_b] v1 car_heap
     = FirstAvailableStrategy_find_spot [lower_floor_a, lower_floor_b, upper_floor] v1 car_heap"
proof -
  have sa: "stable_ascending [upper_floor, lower_floor_a, lower_floor_b]
                             [lower_floor_a, lower_floor_b, upper_floor]"
    by (simp add: stable_ascending_def upper_floor_def lower_floor_a_def lower_floor_b_def)
  show ?thesis
    using sa lowest_floor_refines_first_available [OF sa] by simp
qed

section \<open>Counting free spots\<close>

lemma sum_row: "sum_list (concat (map (\<lambda>c. if P c then [1::int] else []) r)) = int (length (filter P r))"
  by (induction r) simp_all

lemma get_free_spots_filter:
  "get_free_spots f t h = int (length (filter (free_cell h t) (concat (spots f))))"
proof -
  have "sum_list (concat (map (\<lambda>r. concat (map (\<lambda>c. if free_cell h t c then [1::int] else []) r)) rs))
          = int (length (filter (free_cell h t) (concat rs)))" for rs
    by (induction rs) (simp_all add: sum_row)
  then show ?thesis by (simp add: get_free_spots_def)
qed

lemma grid_positions_Cons:
  "{(i, j). i < length (r # rs) \<and> j < length ((r # rs) ! i) \<and> P ((r # rs) ! i ! j)}
     = Pair 0 ` {j. j < length r \<and> P (r ! j)}
       \<union> (\<lambda>(i, j). (Suc i, j)) ` {(i, j). i < length rs \<and> j < length (rs ! i) \<and> P (rs ! i ! j)}"
  (is "?L = ?A \<union> ?B")
proof (rule set_eqI)
  fix p :: "nat \<times> nat"
  obtain i j where p: "p = (i, j)" by (cases p)
  show "p \<in> ?L \<longleftrightarrow> p \<in> ?A \<union> ?B"
  proof (cases i)
    case 0
    with p show ?thesis by auto
  next
    case (Suc i')
    with p show ?thesis by (auto simp: image_iff)
  qed
qed

lemma grid_positions_card:
  "finite {(i, j). i < length rs \<and> j < length (rs ! i) \<and> P (rs ! i ! j)} \<and>
   length (filter P (concat rs))
     = card {(i, j). i < length rs \<and> j < length (rs ! i) \<and> P (rs ! i ! j)}"
proof (induction rs)
  case Nil
  show ?case by simp
next
  case (Cons r rs)
  let ?S = "{(i, j). i < length rs \<and> j < length (rs ! i) \<and> P (rs ! i ! j)}"
  let ?A = "Pair (0::nat) ` {j. j < length r \<and> P (r ! j)}"
  let ?B = "(\<lambda>(i, j). (Suc i, j)) ` ?S"
  from Cons have fS: "finite ?S" and cS: "length (filter P (concat rs)) = card ?S"
    by simp_all
  have fA: "finite ?A" by simp
  have fB: "finite ?B" using fS by simp
  have dj: "?A \<inter> ?B = {}" by auto
  have cA: "card ?A = length (filter P r)"
    by (simp add: card_image inj_on_def length_filter_conv_card)
  have "inj_on (\<lambda>(i, j). (Suc i, j)) ?S" by (auto simp: inj_on_def)
  then have cB: "card ?B = card ?S" by (rule card_image)
  have "card (?A \<union> ?B) = card ?A + card ?B"
    using fA fB dj by (rule card_Un_disjoint)
  with cA cB cS fA fB show ?case
    unfolding grid_positions_Cons by simp
qed

lemma free_cell_iff:
  "free_cell h t c \<longleftrightarrow> (\<exists>a. c = Some a \<and> is_free (h a) \<and> spot_type (h a) = t)"
  by (cases c) (simp_all add: free_cell_def)

lemma get_free_spots_card:
  "get_free_spots f t h = int (card (free_positions f t h))"
proof -
  have "free_positions f t h
          = {(i, j). i < length (spots f) \<and> j < length (spots f ! i)
                       \<and> free_cell h t (spots f ! i ! j)}"
    by (simp add: free_positions_def free_cell_iff)
  then show ?thesis
    using grid_positions_card [of "spots f" "free_cell h t"]
    by (simp add: get_free_spots_filter)
qed

lemma count_free_floors_first:
  "\<forall>g \<in> set pre. floor_num g \<noteq> k \<Longrightarrow> floor_num f = k \<Longrightarrow>
     count_free_floors (pre @ f # post) k t h = get_free_spots f t h"
  by (induction pre) simp_all

lemma count_free_floors_none:
  "\<forall>g \<in> set fs. floor_num g \<noteq> k \<Longrightarrow> count_free_floors fs k t h = 0"
  by (induction fs) simp_all

text \<open>
  C8: for every floor, \<open>get_free_spots\<close> is the number of grid positions holding a spot that
  is free and of the given type (empty cells are never counted); \<open>count_free_spots\<close> returns
  that number for the first floor of the lot whose \<open>floor_num\<close> is the one asked for, and 0
  when the lot has no floor of that number; it changes no spot.
\<close>

theorem free_count_correct:
  "get_free_spots f t h = int (card (free_positions f t h)) \<and>
   (floors lot = pre @ g # post \<and> floor_num g = k \<and> (\<forall>g' \<in> set pre. floor_num g' \<noteq> k) \<longrightarrow>
      count_free_spots lot k t h = (int (card (free_positions g t h)), h)) \<and>
   ((\<forall>g' \<in> set (floors lot). floor_num g' \<noteq> k) \<longrightarrow> count_free_spots lot k t h = (0, h))"
  by (simp add: get_free_spots_card [symmetric] count_free_spots_def count_free_floors_first
      count_free_floors_none)

theorem free_count_correct_witness:
  "int (card (free_positions demo_floor ''CAR'' (occupy demo_heap 0 v1))) = 1 \<and>
   count_free_spots demo_lot 0 ''CAR'' (occupy demo_heap 0 v1) = (1, occupy demo_heap 0 v1) \<and>
   count_free_spots tower_lot 1 ''CAR'' car_heap = (int (card (free_positions lower_floor_a ''CAR'' car_heap)), car_heap) \<and>
   count_free_spots demo_lot 5 ''CAR'' demo_heap = (0, demo_heap)"
proof -
  have g: "get_free_spots demo_floor ''CAR'' (occupy demo_heap 0 v1) = 1"
    by (simp add: get_free_spots_def demo_floor_def free_cell_def occupy_def demo_heap_def
        is_free_def)
  have c1: "int (card (free_positions demo_floor ''CAR'' (occupy demo_heap 0 v1))) = 1"
    using free_count_correct [where f = demo_floor and t = "''CAR''" and h = "occupy demo_heap 0 v1"] g
    by simp
  have c2: "count_free_spots demo_lot 0 ''CAR'' (occupy demo_heap 0 v1) = (1, occupy demo_heap 0 v1)"
    using free_count_correct [where lot = demo_lot and pre = "[]" and g = demo_floor
            and post = "[]" and k = 0 and t = "''CAR''" and h = "occupy demo_heap 0 v1"] c1
    by (simp add: demo_lot_def demo_floor_def)
  have c3: "count_free_spots tower_lot 1 ''CAR'' car_heap
              = (int (card (free_positions lower_floor_a ''CAR'' car_heap)), car_heap)"
    using free_count_correct [where lot = tower_lot and pre = "[upper_floor]"
            and g = lower_floor_a and post = "[lower_floor_b]" and k = 1 and t = "''CAR''"
            and h = car_heap]
    by (simp add: tower_lot_def upper_floor_def lower_floor_a_def)
  have c4: "count_free_spots demo_lot 5 ''CAR'' demo_heap = (0, demo_heap)"
    using free_count_correct [where lot = demo_lot and k = 5 and t = "''CAR''" and h = demo_heap]
    by (simp add: demo_lot_def demo_floor_def)
  from c1 c2 c3 c4 show ?thesis by simp
qed


section \<open>Claims about unpark_vehicle\<close>

text \<open>
  C10: \<open>unpark_vehicle\<close> clears the occupant of the first spot in the scan order that holds a
  vehicle of the given number and returns that vehicle; every other spot is unchanged, and
  \<open>spot_type\<close>, \<open>row\<close> and \<open>col\<close> of every spot are unchanged; when no spot of the lot holds
  such a vehicle it returns \<open>None\<close> and changes nothing.
\<close>

theorem unpark_vehicle_frame:
  "(case List.find (\<lambda>a. holds_number (h a) n) (scan_order (floors lot)) of
      None \<Rightarrow> unpark_vehicle lot n h = (None, h)
    | Some a \<Rightarrow> unpark_vehicle lot n h = (vehicle (h a), h(a := (h a)\<lparr>vehicle := None\<rparr>)) \<and>
               (\<exists>w. vehicle (h a) = Some w \<and> number w = n) \<and>
               (\<forall>b. b \<noteq> a \<longrightarrow> snd (unpark_vehicle lot n h) b = h b)) \<and>
   (\<forall>b. spot_type (snd (unpark_vehicle lot n h) b) = spot_type (h b) \<and>
        row (snd (unpark_vehicle lot n h) b) = row (h b) \<and>
        col (snd (unpark_vehicle lot n h) b) = col (h b)) \<and>
   ((\<forall>a \<in> set (scan_order (floors lot)). \<not> holds_number (h a) n) \<longrightarrow>
      unpark_vehicle lot n h = (None, h))"
proof (cases "List.find (\<lambda>a. holds_number (h a) n) (scan_order (floors lot))")
  case None
  then have "unpark_vehicle lot n h = (None, h)"
    by (simp add: unpark_vehicle_def unpark_floors_find)
  with None show ?thesis by simp
next
  case (Some a)
  from find_holds_Some [OF Some] obtain w where "vehicle (h a) = Some w" "number w = n"
    by blast
  moreover from Some have "\<not> (\<forall>a \<in> set (scan_order (floors lot)). \<not> holds_number (h a) n)"
    by (auto simp: find_Some_iff)
  ultimately show ?thesis using Some
    by (simp add: unpark_vehicle_def unpark_floors_find vacate_def)
qed

theorem unpark_vehicle_frame_witness:
  "unpark_vehicle demo_lot ''KA04CD4321'' full_heap = (Some v4, full_heap(3 := (full_heap 3)\<lparr>vehicle := None\<rparr>)) \<and>
   unpark_vehicle demo_lot ''KA04CD4321'' demo_heap = (None, demo_heap)"
proof -
  have so: "scan_order (floors demo_lot) = [0, 1, 2, 3]"
    by (simp add: scan_order_def floor_slots_def row_slots_def demo_floor_def demo_lot_def)
  have a: "List.find (\<lambda>a. holds_number (full_heap a) ''KA04CD4321'') (scan_order (floors demo_lot)) = Some 3"
    unfolding so by (simp add: holds_number_def full_heap_def occupy_def demo_heap_def v1_def v4_def)
  have v: "vehicle (full_heap 3) = Some v4"
    by (simp add: full_heap_def occupy_def)
  have b: "\<forall>a \<in> set (scan_order (floors demo_lot)). \<not> holds_number (demo_heap a) ''KA04CD4321''"
    unfolding so by (simp add: holds_number_def demo_heap_def)
  show ?thesis
    using unpark_vehicle_frame [where h = full_heap and n = "''KA04CD4321''" and lot = demo_lot]
          unpark_vehicle_frame [where h = demo_heap and n = "''KA04CD4321''" and lot = demo_lot] a b v
    by simp
qed

section \<open>Sequences of operations on a lot\<close>

lemma unpark_vehicle_cases:
  "unpark_vehicle lot n h = (None, h) \<and> (\<forall>a \<in> set (scan_order (floors lot)). \<not> holds_number (h a) n)
   \<or> (\<exists>a \<in> set (scan_order (floors lot)). \<exists>w. vehicle (h a) = Some w \<and> number w = n \<and>
          unpark_vehicle lot n h = (Some w, vacate h a))"
proof (cases "List.find (\<lambda>a. holds_number (h a) n) (scan_order (floors lot))")
  case None
  then have "\<forall>a \<in> set (scan_order (floors lot)). \<not> holds_number (h a) n"
    by (simp add: find_None_iff)
  with None show ?thesis by (simp add: unpark_vehicle_def unpark_floors_find)
next
  case (Some a)
  from find_holds_Some [OF Some] obtain w where w: "vehicle (h a) = Some w" "number w = n"
    by blast
  from Some have "a \<in> set (scan_order (floors lot))" by (auto simp: find_Some_iff)
  with Some w show ?thesis by (auto simp: unpark_vehicle_def unpark_floors_find)
qed

lemma park_vehicle_cases:
  "park_vehicle lot v h = (None, h) \<and> (\<forall>a \<in> set (scan_order (floors lot)). \<not> compatible_free h v a)
   \<or> (\<exists>a \<in> set (scan_order (floors lot)). compatible_free h v a \<and>
          park_vehicle lot v h = (Some a, occupy h a v))"
  using find_spot_cases [of "strategy lot" "floors lot" v h] by (simp add: park_vehicle_def)

lemma apply_op_keeps:
  assumes "vehicle (h a) = Some v"
  shows "vehicle (apply_op lot op h a) = Some v
         \<or> (op = Unpark (number v) \<and> unpark_vehicle lot (number v) h = (Some v, vacate h a))"
proof (cases op)
  case (Park w)
  from park_vehicle_cases [of lot w h] assms show ?thesis
    by (auto simp: Park compatible_free_def is_free_def occupy_def)
next
  case (Unpark n)
  from unpark_vehicle_cases [of lot n h] show ?thesis
  proof
    assume "unpark_vehicle lot n h = (None, h) \<and> (\<forall>a \<in> set (scan_order (floors lot)). \<not> holds_number (h a) n)"
    with assms show ?thesis by (simp add: Unpark)
  next
    assume "\<exists>b \<in> set (scan_order (floors lot)). \<exists>w. vehicle (h b) = Some w \<and> number w = n \<and>
              unpark_vehicle lot n h = (Some w, vacate h b)"
    then obtain b w where b: "vehicle (h b) = Some w" "number w = n"
      "unpark_vehicle lot n h = (Some w, vacate h b)" by blast
    show ?thesis
    proof (cases "b = a")
      case True
      with b assms show ?thesis by (auto simp: Unpark)
    next
      case False
      with b assms show ?thesis by (simp add: Unpark vacate_def)
    qed
  qed
next
  case (Search n)
  with assms show ?thesis by (simp add: search_vehicle_def)
next
  case (CountFree k t)
  with assms show ?thesis by (simp add: count_free_spots_def)
qed

lemma run_ops_append: "run_ops lot (xs @ ys) h = run_ops lot ys (run_ops lot xs h)"
  by (induction xs arbitrary: h) simp_all

lemma run_ops_keeps:
  "vehicle (h a) = Some v \<Longrightarrow>
     vehicle (run_ops lot ops h a) = Some v
     \<or> (\<exists>pre post. ops = pre @ Unpark (number v) # post \<and>
           vehicle (run_ops lot pre h a) = Some v \<and>
           unpark_vehicle lot (number v) (run_ops lot pre h)
             = (Some v, vacate (run_ops lot pre h) a))"
proof (induction ops arbitrary: h)
  case Nil
  then show ?case by simp
next
  case (Cons op ops)
  from apply_op_keeps [where h = h and a = a and v = v and lot = lot and op = op] Cons.prems
  have "vehicle (apply_op lot op h a) = Some v
         \<or> (op = Unpark (number v) \<and> unpark_vehicle lot (number v) h = (Some v, vacate h a))"
    by blast
  then show ?case
  proof
    assume k: "vehicle (apply_op lot op h a) = Some v"
    from Cons.IH [where h = "apply_op lot op h"] k
    have "vehicle (run_ops lot ops (apply_op lot op h) a) = Some v
     \<or> (\<exists>pre post. ops = pre @ Unpark (number v) # post \<and>
           vehicle (run_ops lot pre (apply_op lot op h) a) = Some v \<and>
           unpark_vehicle lot (number v) (run_ops lot pre (apply_op lot op h))
             = (Some v, vacate (run_ops lot pre (apply_op lot op h)) a))"
      by blast
    then show ?thesis
    proof
      assume "vehicle (run_ops lot ops (apply_op lot op h) a) = Some v"
      then show ?thesis by simp
    next
      assume "\<exists>pre post. ops = pre @ Unpark (number v) # post \<and>
           vehicle (run_ops lot pre (apply_op lot op h) a) = Some v \<and>
           unpark_vehicle lot (number v) (run_ops lot pre (apply_op lot op h))
             = (Some v, vacate (run_ops lot pre (apply_op lot op h)) a)"
      then obtain pre post where p: "ops = pre @ Unpark (number v) # post"
        "vehicle (run_ops lot pre (apply_op lot op h) a) = Some v"
        "unpark_vehicle lot (number v) (run_ops lot pre (apply_op lot op h))
             = (Some v, vacate (run_ops lot pre (apply_op lot op h)) a)" by blast
      have "op # ops = (op # pre) @ Unpark (number v) # post \<and>
            vehicle (run_ops lot (op # pre) h a) = Some v \<and>
            unpark_vehicle lot (number v) (run_ops lot (op # pre) h)
              = (Some v, vacate (run_ops lot (op # pre) h) a)"
        using p by simp
      then show ?thesis by blast
    qed
  next
    assume u: "op = Unpark (number v) \<and> unpark_vehicle lot (number v) h = (Some v, vacate h a)"
    have "op # ops = [] @ Unpark (number v) # ops \<and>
          vehicle (run_ops lot [] h a) = Some v \<and>
          unpark_vehicle lot (number v) (run_ops lot [] h) = (Some v, vacate (run_ops lot [] h) a)"
      using u Cons.prems by simp
    then show ?thesis by blast
  qed
qed

text \<open>
  C1: a spot has one occupant field, so it holds at most one vehicle. After a successful
  \<open>park_vehicle\<close> the spot returned holds the vehicle and is not free; and along every
  sequence of park, unpark, search and count operations a spot that holds a vehicle still
  holds it and is not free, unless the sequence contains an \<open>unpark_vehicle\<close> of that
  vehicle's number which, run at a moment the spot still held the vehicle, returned the
  vehicle and cleared exactly that spot.
\<close>

theorem spot_held_until_unparked:
  "(park_vehicle lot v h = (Some a, h') \<longrightarrow> vehicle (h' a) = Some v \<and> \<not> is_free (h' a)) \<and>
   (vehicle (h a) = Some v \<longrightarrow>
      vehicle (run_ops lot ops h a) = Some v \<and> \<not> is_free (run_ops lot ops h a)
      \<or> (\<exists>pre post. ops = pre @ Unpark (number v) # post \<and>
            vehicle (run_ops lot pre h a) = Some v \<and>
            unpark_vehicle lot (number v) (run_ops lot pre h)
              = (Some v, (run_ops lot pre h)(a := (run_ops lot pre h a)\<lparr>vehicle := None\<rparr>))))"
proof -
  have p: "park_vehicle lot v h = (Some a, h') \<longrightarrow> vehicle (h' a) = Some v \<and> \<not> is_free (h' a)"
    using park_vehicle_cases [of lot v h] by (auto simp: occupy_def is_free_def)
  have k: "vehicle (h a) = Some v \<longrightarrow>
      vehicle (run_ops lot ops h a) = Some v \<and> \<not> is_free (run_ops lot ops h a)
      \<or> (\<exists>pre post. ops = pre @ Unpark (number v) # post \<and>
            vehicle (run_ops lot pre h a) = Some v \<and>
            unpark_vehicle lot (number v) (run_ops lot pre h)
              = (Some v, (run_ops lot pre h)(a := (run_ops lot pre h a)\<lparr>vehicle := None\<rparr>)))"
    using run_ops_keeps [where h = h and a = a and v = v and lot = lot and ops = ops] by (auto simp: is_free_def vacate_def)
  from p k show ?thesis by (rule conjI)
qed

theorem spot_held_until_unparked_witness:
  "vehicle (snd (park_vehicle demo_lot v1 demo_heap) 0) = Some v1 \<and>
   vehicle (run_ops demo_lot [Park v4, Search ''KA01AB1234'', Unpark ''KA04CD4321'', CountFree 0 ''CAR'']
              (occupy demo_heap 0 v1) 0) = Some v1"
proof -
  have so: "scan_order (floors demo_lot) = [0, 1, 2, 3]"
    by (simp add: scan_order_def floor_slots_def row_slots_def demo_floor_def demo_lot_def)
  have pv: "park_vehicle demo_lot v1 demo_heap = (Some 0, occupy demo_heap 0 v1)"
    by (simp add: park_vehicle_def demo_lot_def FirstAvailableStrategy_find_spot_def
        find_spot_floors_find so [unfolded demo_lot_def, simplified] compatible_free_def
        demo_heap_def is_free_def v1_def)
  have a: "vehicle (snd (park_vehicle demo_lot v1 demo_heap) 0) = Some v1"
    using spot_held_until_unparked [where lot = demo_lot and v = v1 and h = demo_heap
            and a = 0 and h' = "occupy demo_heap 0 v1"] pv
    by simp
  have occ: "vehicle (occupy demo_heap 0 v1 0) = Some v1"
    by (simp add: occupy_def)
  have no: "\<not> (\<exists>pre post. [Park v4, Search ''KA01AB1234'', Unpark ''KA04CD4321'', CountFree 0 ''CAR'']
              = pre @ Unpark (number v1) # post)"
    by (simp add: append_eq_Cons_conv Cons_eq_append_conv v1_def)
  have b: "vehicle (run_ops demo_lot [Park v4, Search ''KA01AB1234'', Unpark ''KA04CD4321'', CountFree 0 ''CAR'']
              (occupy demo_heap 0 v1) 0) = Some v1"
    using spot_held_until_unparked [where lot = demo_lot and v = v1 and h = "occupy demo_heap 0 v1"
            and a = 0 and ops = "[Park v4, Search ''KA01AB1234'', Unpark ''KA04CD4321'', CountFree 0 ''CAR'']"]
          occ no
    by blast
  from a b show ?thesis by simp
qed

section \<open>Binding of vehicles to spots\<close>

lemma all_free_single_binding: "all_free lot h \<Longrightarrow> single_binding lot h"
  by (simp add: all_free_def single_binding_def is_free_def)

lemma park_vehicle_binds_once:
  assumes "\<not> parked lot h v"
  shows "park_vehicle lot v h = (None, h)
         \<or> (\<exists>a \<in> set (scan_order (floors lot)).
               park_vehicle lot v h = (Some a, occupy h a v) \<and>
               (\<forall>b \<in> set (scan_order (floors lot)).
                  vehicle (occupy h a v b) = Some v \<longleftrightarrow> b = a))"
  using park_vehicle_cases [of lot v h] assms
  by (auto simp: parked_def occupy_def)

lemma single_binding_park:
  assumes "single_binding lot h" and "\<not> parked lot h v"
  shows "single_binding lot (snd (park_vehicle lot v h))"
  using park_vehicle_binds_once [OF assms(2)]
proof
  assume "park_vehicle lot v h = (None, h)"
  with assms(1) show ?thesis by simp
next
  assume "\<exists>a \<in> set (scan_order (floors lot)).
               park_vehicle lot v h = (Some a, occupy h a v) \<and>
               (\<forall>b \<in> set (scan_order (floors lot)).
                  vehicle (occupy h a v b) = Some v \<longleftrightarrow> b = a)"
  then obtain a where a: "park_vehicle lot v h = (Some a, occupy h a v)" by blast
  have "single_binding lot (occupy h a v)"
    unfolding single_binding_def
  proof (intro ballI impI)
    fix b c
    assume b: "b \<in> set (scan_order (floors lot))" and c: "c \<in> set (scan_order (floors lot))"
      and ne: "b \<noteq> c"
    from assms(1) b c ne have o: "vehicle (h b) = None \<or> vehicle (h b) \<noteq> vehicle (h c)"
      by (simp add: single_binding_def)
    from assms(2) b c have nb: "vehicle (h b) \<noteq> Some v" and nc: "vehicle (h c) \<noteq> Some v"
      by (auto simp: parked_def)
    show "vehicle (occupy h a v b) = None \<or> vehicle (occupy h a v b) \<noteq> vehicle (occupy h a v c)"
      using o nb nc ne by (auto simp: occupy_def)
  qed
  with a show ?thesis by simp
qed

lemma single_binding_unpark:
  assumes "single_binding lot h"
  shows "single_binding lot (snd (unpark_vehicle lot n h))"
  using unpark_vehicle_cases [of lot n h]
proof
  assume "unpark_vehicle lot n h = (None, h) \<and> (\<forall>a \<in> set (scan_order (floors lot)). \<not> holds_number (h a) n)"
  with assms show ?thesis by simp
next
  assume "\<exists>a \<in> set (scan_order (floors lot)). \<exists>w. vehicle (h a) = Some w \<and> number w = n \<and>
            unpark_vehicle lot n h = (Some w, vacate h a)"
  then obtain a w where a: "unpark_vehicle lot n h = (Some w, vacate h a)" by blast
  have "single_binding lot (vacate h a)"
    unfolding single_binding_def
  proof (intro ballI impI)
    fix b c
    assume b: "b \<in> set (scan_order (floors lot))" and c: "c \<in> set (scan_order (floors lot))"
      and ne: "b \<noteq> c"
    from assms b c ne have o: "vehicle (h b) = None \<or> vehicle (h b) \<noteq> vehicle (h c)"
      by (simp add: single_binding_def)
    then show "vehicle (vacate h a b) = None \<or> vehicle (vacate h a b) \<noteq> vehicle (vacate h a c)"
      using ne by (auto simp: vacate_def)
  qed
  with a show ?thesis by simp
qed

lemma single_binding_run:
  "single_binding lot h \<Longrightarrow> no_repark lot ops h \<Longrightarrow> single_binding lot (run_ops lot ops h)"
proof (induction ops arbitrary: h)
  case Nil
  then show ?case by simp
next
  case (Cons op ops)
  show ?case
  proof (cases op)
    case (Park v)
    with Cons.prems have "\<not> parked lot h v" and "no_repark lot ops (apply_op lot (Park v) h)"
      by simp_all
    moreover from this Cons.prems have "single_binding lot (apply_op lot (Park v) h)"
      by (simp add: single_binding_park)
    ultimately show ?thesis using Cons.IH Park by simp
  next
    case (Unpark n)
    with Cons.prems have "no_repark lot ops (apply_op lot (Unpark n) h)" by simp
    moreover from Cons.prems have "single_binding lot (apply_op lot (Unpark n) h)"
      by (simp add: single_binding_unpark)
    ultimately show ?thesis using Cons.IH Unpark by simp
  next
    case (Search n)
    with Cons.prems have "no_repark lot ops (apply_op lot (Search n) h)" by simp
    moreover from Cons.prems have "single_binding lot (apply_op lot (Search n) h)"
      by (simp add: search_vehicle_def)
    ultimately show ?thesis using Cons.IH Search by simp
  next
    case (CountFree k t)
    with Cons.prems have "no_repark lot ops (apply_op lot (CountFree k t) h)" by simp
    moreover from Cons.prems have "single_binding lot (apply_op lot (CountFree k t) h)"
      by (simp add: count_free_spots_def)
    ultimately show ?thesis using Cons.IH CountFree by simp
  qed
qed

text \<open>
  \<open>park_vehicle\<close> does not look for the vehicle in the lot: from the all-free demo lot,
  parking the same vehicle twice binds it to the two CAR spots at once.
\<close>

theorem repark_double_binding_counterexample:
  "scan_order (floors demo_lot) = [0, 1, 2, 3] \<and>
   is_free (demo_heap 0) \<and> is_free (demo_heap 1) \<and>
   is_free (demo_heap 2) \<and> is_free (demo_heap 3) \<and>
   vehicle (run_ops demo_lot [Park v1, Park v1] demo_heap 0) = Some v1 \<and>
   vehicle (run_ops demo_lot [Park v1, Park v1] demo_heap 3) = Some v1"
proof -
  have so: "scan_order [demo_floor] = [0, 1, 2, 3]"
    by (simp add: scan_order_def floor_slots_def row_slots_def demo_floor_def)
  have af: "scan_order (floors demo_lot) = [0, 1, 2, 3] \<and>
            is_free (demo_heap 0) \<and> is_free (demo_heap 1) \<and>
            is_free (demo_heap 2) \<and> is_free (demo_heap 3)"
    by (simp add: demo_lot_def so demo_heap_def is_free_def)
  have p1: "park_vehicle demo_lot v1 demo_heap = (Some 0, occupy demo_heap 0 v1)"
    by (simp add: park_vehicle_def demo_lot_def FirstAvailableStrategy_find_spot_def
        find_spot_floors_find so compatible_free_def demo_heap_def is_free_def v1_def)
  have p2: "park_vehicle demo_lot v1 (occupy demo_heap 0 v1) = (Some 3, occupy (occupy demo_heap 0 v1) 3 v1)"
    by (simp add: park_vehicle_def demo_lot_def FirstAvailableStrategy_find_spot_def
        find_spot_floors_find so compatible_free_def occupy_def demo_heap_def is_free_def v1_def)
  have r: "run_ops demo_lot [Park v1, Park v1] demo_heap = occupy (occupy demo_heap 0 v1) 3 v1"
    by (simp add: p1 p2)
  show ?thesis
    unfolding r using af
    by (simp add: occupy_def)
qed

text \<open>
  C9 (amended): for every sequence of operations starting from an all-free lot in which
  \<open>park_vehicle\<close> is called only with a vehicle that occupies no spot at that moment, no
  reachable state has the same vehicle in two distinct spots, and a \<open>park_vehicle\<close> of a
  vehicle that occupies no spot is either rejected (\<open>None\<close>, nothing changes) or binds the
  vehicle to exactly one spot of the lot.
\<close>

theorem single_binding_without_repark:
  assumes "all_free lot h" and "no_repark lot ops h"
  shows "single_binding lot (run_ops lot ops h) \<and>
         (\<not> parked lot (run_ops lot ops h) v \<longrightarrow>
            park_vehicle lot v (run_ops lot ops h) = (None, run_ops lot ops h)
            \<or> (\<exists>a \<in> set (scan_order (floors lot)).
                  fst (park_vehicle lot v (run_ops lot ops h)) = Some a \<and>
                  (\<forall>b \<in> set (scan_order (floors lot)).
                     vehicle (snd (park_vehicle lot v (run_ops lot ops h)) b) = Some v \<longleftrightarrow> b = a)))"
proof
  from assms show "single_binding lot (run_ops lot ops h)"
    by (simp add: all_free_single_binding single_binding_run)
next
  show "\<not> parked lot (run_ops lot ops h) v \<longrightarrow>
            park_vehicle lot v (run_ops lot ops h) = (None, run_ops lot ops h)
            \<or> (\<exists>a \<in> set (scan_order (floors lot)).
                  fst (park_vehicle lot v (run_ops lot ops h)) = Some a \<and>
                  (\<forall>b \<in> set (scan_order (floors lot)).
                     vehicle (snd (park_vehicle lot v (run_ops lot ops h)) b) = Some v \<longleftrightarrow> b = a))"
  proof
    assume "\<not> parked lot (run_ops lot ops h) v"
    from park_vehicle_binds_once [OF this] show
      "park_vehicle lot v (run_ops lot ops h) = (None, run_ops lot ops h)
            \<or> (\<exists>a \<in> set (scan_order (floors lot)).
                  fst (park_vehicle lot v (run_ops lot ops h)) = Some a \<and>
                  (\<forall>b \<in> set (scan_order (floors lot)).
                     vehicle (snd (park_vehicle lot v (run_ops lot ops h)) b) = Some v \<longleftrightarrow> b = a))"
      by force
  qed
qed

theorem single_binding_without_repark_witness:
  "all_free demo_lot demo_heap \<and>
   no_repark demo_lot [Park v1, Park v4, Unpark ''KA01AB1234'', Park v1] demo_heap \<and>
   single_binding demo_lot
     (run_ops demo_lot [Park v1, Park v4, Unpark ''KA01AB1234'', Park v1] demo_heap)"
proof -
  have so: "scan_order [demo_floor] = [0, 1, 2, 3]"
    by (simp add: scan_order_def floor_slots_def row_slots_def demo_floor_def)
  have af: "all_free demo_lot demo_heap"
    by (simp add: all_free_def demo_lot_def so demo_heap_def is_free_def)
  have nr: "no_repark demo_lot [Park v1, Park v4, Unpark ''KA01AB1234'', Park v1] demo_heap"
    by (simp add: parked_def park_vehicle_def unpark_vehicle_def demo_lot_def so
        FirstAvailableStrategy_find_spot_def find_spot_floors_find unpark_floors_find
        compatible_free_def holds_number_def occupy_def vacate_def is_free_def
        demo_heap_def v1_def v4_def)
  from single_binding_without_repark [OF af nr] af nr show ?thesis by simp
qed

section \<open>Round trip\<close>

lemma find_unique:
  assumes "a \<in> set xs" and "P a" and "\<forall>b \<in> set xs. P b \<longrightarrow> b = a"
  shows "List.find P xs = Some a"
proof (cases "List.find P xs")
  case None
  then have "\<not> (\<exists>x. x \<in> set xs \<and> P x)" by (simp add: find_None_iff)
  with assms(1,2) show ?thesis by blast
next
  case (Some b)
  then have "b \<in> set xs \<and> P b" by (auto simp: find_Some_iff)
  with assms(3) have "b = a" by blast
  with Some show ?thesis by simp
qed

lemma vacate_occupy: "is_free (h a) \<Longrightarrow> vacate (occupy h a u) a = h"
  by (simp add: vacate_def occupy_def is_free_def fun_eq_iff)

lemma free_cell_occupy:
  assumes "compatible_free h u a"
  shows "free_cell (occupy h a u) (vtype u) c \<longleftrightarrow> c \<noteq> Some a \<and> free_cell h (vtype u) c"
    and "free_cell h (vtype u) (Some a)"
  using assms
  by (cases c; simp add: free_cell_def occupy_def compatible_free_def is_free_def)+

lemma free_cells_occupy:
  assumes "compatible_free h u a"
  shows "length (filter (free_cell h (vtype u)) cs)
           = length (filter (free_cell (occupy h a u) (vtype u)) cs) + count_list cs (Some a)"
proof (induction cs)
  case Nil
  show ?case by simp
next
  case (Cons c cs)
  show ?case
  proof (cases "c = Some a")
    case True
    with Cons show ?thesis
      by (simp add: free_cell_occupy [OF assms])
  next
    case False
    with Cons show ?thesis
      by (simp add: free_cell_occupy(1) [OF assms])
  qed
qed

text \<open>
  On the demo lot the count of free CAR spots is 2 before the park and 2 again after the
  park and the unpark: it has not gone up by 1 relative to before the park.
\<close>

theorem round_trip_free_count_counterexample:
  "scan_order (floors demo_lot) = [0, 1, 2, 3] \<and>
   is_free (demo_heap 0) \<and> is_free (demo_heap 1) \<and>
   is_free (demo_heap 2) \<and> is_free (demo_heap 3) \<and>
   fst (park_vehicle demo_lot v1 demo_heap) = Some 0 \<and>
   fst (unpark_vehicle demo_lot (number v1) (snd (park_vehicle demo_lot v1 demo_heap))) = Some v1 \<and>
   fst (count_free_spots demo_lot 0 (vtype v1) demo_heap) = 2 \<and>
   fst (count_free_spots demo_lot 0 (vtype v1)
          (snd (unpark_vehicle demo_lot (number v1) (snd (park_vehicle demo_lot v1 demo_heap))))) = 2 \<and>
   fst (count_free_spots demo_lot 0 (vtype v1)
          (snd (unpark_vehicle demo_lot (number v1) (snd (park_vehicle demo_lot v1 demo_heap)))))
     \<noteq> fst (count_free_spots demo_lot 0 (vtype v1) demo_heap) + 1"
proof -
  have so: "scan_order [demo_floor] = [0, 1, 2, 3]"
    by (simp add: scan_order_def floor_slots_def row_slots_def demo_floor_def)
  have nh: "scan_order (floors demo_lot) = [0, 1, 2, 3] \<and>
            is_free (demo_heap 0) \<and> is_free (demo_heap 1) \<and>
            is_free (demo_heap 2) \<and> is_free (demo_heap 3)"
    by (simp add: demo_lot_def so is_free_def demo_heap_def)
  have p: "park_vehicle demo_lot v1 demo_heap = (Some 0, occupy demo_heap 0 v1)"
    by (simp add: park_vehicle_def demo_lot_def FirstAvailableStrategy_find_spot_def
        find_spot_floors_find so compatible_free_def demo_heap_def is_free_def v1_def)
  have fr: "is_free (demo_heap 0)"
    by (simp add: demo_heap_def is_free_def)
  have u: "unpark_vehicle demo_lot (number v1) (occupy demo_heap 0 v1) = (Some v1, demo_heap)"
    by (simp add: unpark_vehicle_def demo_lot_def unpark_floors_find so holds_number_def
        vacate_occupy [where h = demo_heap and a = 0, OF fr]) (simp add: occupy_def)
  have c: "fst (count_free_spots demo_lot 0 (vtype v1) demo_heap) = 2"
    by (simp add: count_free_spots_def demo_lot_def demo_floor_def get_free_spots_def
        free_cell_def demo_heap_def is_free_def v1_def)
  from nh p u c show ?thesis by simp
qed

text \<open>
  C5 (amended): for every vehicle whose number occupies no spot of the lot, if
  \<open>park_vehicle\<close> succeeds then the following \<open>unpark_vehicle\<close> of its number returns that
  vehicle, the assigned spot is free again and every spot is as before the park, so the free
  count for the vehicle's type is back to its value before the park; it is 1 more than the
  count taken between the park and the unpark for each cell of the floor that holds the
  assigned spot.
\<close>

theorem round_trip_restores:
  assumes "\<forall>b \<in> set (scan_order (floors lot)). \<not> holds_number (h b) (number u)"
    and "park_vehicle lot u h = (Some a, h1)"
    and "unpark_vehicle lot (number u) h1 = (r, h2)"
  shows "r = Some u \<and> \<not> is_free (h1 a) \<and> is_free (h2 a) \<and> h2 = h \<and>
         count_free_spots lot k (vtype u) h2 = count_free_spots lot k (vtype u) h \<and>
         get_free_spots f (vtype u) h2
           = get_free_spots f (vtype u) h1 + int (count_list (concat (spots f)) (Some a))"
proof -
  from park_vehicle_cases [of lot u h] assms(2)
  have a: "a \<in> set (scan_order (floors lot))" and cf: "compatible_free h u a"
    and h1: "h1 = occupy h a u"
    by auto
  from cf have fr: "is_free (h a)" by (simp add: compatible_free_def)
  have ha: "holds_number (h1 a) (number u)"
    by (simp add: h1 occupy_def holds_number_def)
  have "\<forall>b \<in> set (scan_order (floors lot)). holds_number (h1 b) (number u) \<longrightarrow> b = a"
    using assms(1) by (auto simp: h1 occupy_def)
  with a ha have "List.find (\<lambda>b. holds_number (h1 b) (number u)) (scan_order (floors lot)) = Some a"
    by (rule find_unique)
  then have "unpark_vehicle lot (number u) h1 = (vehicle (h1 a), vacate h1 a)"
    by (simp add: unpark_vehicle_def unpark_floors_find)
  with assms(3) have r: "r = Some u" and h2: "h2 = h"
    by (simp_all add: h1 vacate_occupy [where h = h and a = a, OF fr]) (simp add: occupy_def)
  have n1: "\<not> is_free (h1 a)" by (simp add: h1 occupy_def is_free_def)
  have "get_free_spots f (vtype u) h
          = get_free_spots f (vtype u) h1 + int (count_list (concat (spots f)) (Some a))"
    using free_cells_occupy [OF cf, of "concat (spots f)"]
    by (simp add: get_free_spots_filter h1)
  with r h2 fr n1 show ?thesis by simp
qed

theorem round_trip_restores_witness:
  "unpark_vehicle demo_lot (number v4) (snd (park_vehicle demo_lot v4 (occupy demo_heap 0 v1)))
     = (Some v4, occupy demo_heap 0 v1) \<and>
   get_free_spots demo_floor (vtype v4) (occupy demo_heap 0 v1)
     = get_free_spots demo_floor (vtype v4) (snd (park_vehicle demo_lot v4 (occupy demo_heap 0 v1))) + 1"
proof -
  let ?h = "occupy demo_heap 0 v1"
  have so: "scan_order [demo_floor] = [0, 1, 2, 3]"
    by (simp add: scan_order_def floor_slots_def row_slots_def demo_floor_def)
  have nh: "\<forall>b \<in> set (scan_order (floors demo_lot)). \<not> holds_number (?h b) (number v4)"
    by (simp add: demo_lot_def so holds_number_def occupy_def demo_heap_def v1_def v4_def)
  have p: "park_vehicle demo_lot v4 ?h = (Some 3, occupy ?h 3 v4)"
    by (simp add: park_vehicle_def demo_lot_def FirstAvailableStrategy_find_spot_def
        find_spot_floors_find so compatible_free_def occupy_def demo_heap_def is_free_def v4_def)
  obtain r h2 where u: "unpark_vehicle demo_lot (number v4) (occupy ?h 3 v4) = (r, h2)"
    by (cases "unpark_vehicle demo_lot (number v4) (occupy ?h 3 v4)")
  have cl: "count_list (concat (spots demo_floor)) (Some 3) = 1"
    by (simp add: demo_floor_def)
  from round_trip_restores [OF nh p u, where f = demo_floor and k = 0] cl
  have "r = Some v4" and "h2 = occupy demo_heap 0 v1"
    and "get_free_spots demo_floor (vtype v4) h2
           = get_free_spots demo_floor (vtype v4) (occupy (occupy demo_heap 0 v1) 3 v4) + 1"
    by auto
  with u p show ?thesis by simp
qed

end
